theory Spec2Isabelle
  imports Main "HOL-Library.Word" "HOL-Library.Multiset"
begin

section \<open>Errors, sockets and the log\<close>

text \<open>
  Go errors are values. The three that the server tells apart are \<open>io.EOF\<close>,
  \<open>net.ErrClosed\<close> and the errors made with \<open>errors.New\<close>; \<open>errors.Is\<close> on
  them is equality. \<open>nil\<close> is \<open>None\<close> of \<open>error option\<close>.
\<close>

datatype error = io_EOF | net_ErrClosed | errors_New string

text \<open>
  \<open>net.Listener\<close> and \<open>net.Conn\<close> are interfaces of the Go standard library. What the
  server uses of them is \<open>Close\<close> and the address printed in log lines. What a call of
  \<open>Close\<close> returns is left open: \<open>close_result k\<close> is the result of the call made
  after \<open>k\<close> earlier ones, and \<open>close_calls\<close> counts the calls made so far.
\<close>

record socket =
  addr :: string
  close_calls :: nat
  close_result :: "nat \<Rightarrow> error option"

definition socket_Close :: "socket \<Rightarrow> error option \<times> socket" where
  "socket_Close sk = (close_result sk (close_calls sk), sk\<lparr>close_calls := Suc (close_calls sk)\<rparr>)"

text \<open>One line of zerolog output: level, the error attached with \<open>Err\<close>, the message.\<close>

datatype log_level = Debug | Info | Error

type_synonym log_entry = "log_level \<times> error option \<times> string"

section \<open>Once-close guards (server.go, lines 35 to 67)\<close>

text \<open>
  \<open>sync.Once\<close> is the flag \<open>once\<close>: \<open>Do f\<close> runs \<open>f\<close> when the flag is unset and
  sets it. The two structs have the same field names; those of the listener's guard
  carry the prefix \<open>l_\<close> here.
\<close>

record onceCloseListener =
  Listener :: socket
  l_once :: bool
  l_closeErr :: "error option"

definition listener_Close :: "onceCloseListener \<Rightarrow> error option \<times> onceCloseListener" where
  "listener_Close oc =
     (if l_once oc then (l_closeErr oc, oc)
      else (let (err, sk) = socket_Close (Listener oc)
            in (err, oc\<lparr>Listener := sk, l_once := True, l_closeErr := err\<rparr>)))"

record onceCloseConn =
  Conn :: socket
  once :: bool
  closeErr :: "error option"

text \<open>The guard of an accepted socket also writes two debug lines inside \<open>once.Do\<close>.\<close>

definition conn_Close ::
  "onceCloseConn \<times> log_entry list \<Rightarrow> error option \<times> onceCloseConn \<times> log_entry list" where
  "conn_Close = (\<lambda>(oc, lg).
     if once oc then (closeErr oc, oc, lg)
     else (let lg1 = lg @ [(Debug, None, ''Closing connection '' @ addr (Conn oc))];
               (err, sk) = socket_Close (Conn oc);
               lg2 = (if err = None
                      then lg1 @ [(Debug, None, ''Closed connection '' @ addr (Conn oc))]
                      else lg1)
           in (err, oc\<lparr>Conn := sk, once := True, closeErr := err\<rparr>, lg2)))"

section \<open>Server (server.go, lines 23 to 118)\<close>

text \<open>\<open>time.Duration\<close> is a signed 64-bit count of nanoseconds.\<close>

record ServerConfig =
  Host :: string
  Port :: string
  ConnIdleTimeout :: "64 word"

text \<open>
  The \<open>listener\<close> field is an interface value, \<open>nil\<close> until \<open>Start\<close> sets it. The keys
  of the \<open>conns\<close> map are pointers to once-close guards: a \<open>conn_ref\<close> is such a
  pointer, and the list holds the keys in the order in which \<open>range\<close> visits them.
\<close>

type_synonym conn_ref = nat

record Server =
  config :: ServerConfig
  listener :: "onceCloseListener option"
  conns :: "conn_ref list"

text \<open>The memory outside the \<open>Server\<close> struct: the guards the keys point to, and the log.\<close>

record store =
  conn_at :: "conn_ref \<Rightarrow> onceCloseConn"
  logged :: "log_entry list"

definition NewServer :: "ServerConfig \<Rightarrow> error + Server" where
  "NewServer cfg =
     (if sint (ConnIdleTimeout cfg) \<le> 0
      then Inl (errors_New ''ConnIdleTimeout must be greater than 0'')
      else Inr \<lparr>config = cfg, listener = None, conns = []\<rparr>)"

definition Config :: "Server \<Rightarrow> ServerConfig" where
  "Config s = config s"

text \<open>A call either returns or panics on the nil interface value.\<close>

datatype 'a outcome = Panic | Return 'a

text \<open>
  The body of the \<open>range\<close> loop of \<open>ForceShutdown\<close> (lines 93 to 98), once for each
  key: close, log a failure, delete the key. Only the key just visited is deleted, so
  \<open>range\<close> reaches every key. The goroutines of \<open>Start\<close>, which delete keys of the
  same map when a connection ends, are taken not to run during the call.
\<close>

fun close_conns :: "conn_ref list \<Rightarrow> Server \<times> store \<Rightarrow> Server \<times> store" where
  "close_conns [] (s, m) = (s, m)"
| "close_conns (c # cs) (s, m) =
     (let (err, oc, lg) = conn_Close (conn_at m c, logged m);
          lg' = (case err of
                   None \<Rightarrow> lg
                 | Some e \<Rightarrow> lg @ [(Error, Some e, ''Error closing connection '' @ addr (Conn oc))])
      in close_conns cs
           (s\<lparr>conns := removeAll c (conns s)\<rparr>,
            m\<lparr>conn_at := (conn_at m)(c := oc), logged := lg'\<rparr>))"

definition ForceShutdown :: "Server \<times> store \<Rightarrow> (error option \<times> Server \<times> store) outcome" where
  "ForceShutdown = (\<lambda>(s, m).
     let m1 = m\<lparr>logged := logged m @ [(Info, None, ''Force shutting down kafka server'')]\<rparr>
     in case listener s of
          None \<Rightarrow> Panic
        | Some l \<Rightarrow>
            (let (err, l') = listener_Close l;
                 s1 = s\<lparr>listener := Some l'\<rparr>
             in if err \<noteq> None then Return (err, s1, m1)
                else Return (None, close_conns (conns s1) (s1, m1))))"

definition Shutdown :: "Server \<times> store \<Rightarrow> (error option \<times> Server \<times> store) outcome" where
  "Shutdown sm = ForceShutdown sm"

text \<open>Lines 118 and 142 of \<open>Start\<close>: a fresh guard around a socket.\<close>

definition new_onceCloseListener :: "socket \<Rightarrow> onceCloseListener" where
  "new_onceCloseListener sk = \<lparr>Listener = sk, l_once = False, l_closeErr = None\<rparr>"

definition new_onceCloseConn :: "socket \<Rightarrow> onceCloseConn" where
  "new_onceCloseConn sk = \<lparr>Conn = sk, once = False, closeErr = None\<rparr>"

text \<open>
  \<open>Start\<close> up to the accept loop (lines 112 to 128). The result of \<open>net.Listen\<close> is
  the first argument. With \<open>Some err\<close> the call has returned \<open>err\<close>; with \<open>None\<close> it
  has stored the guarded listener and enters the accept loop.
\<close>

definition Start_listen ::
  "error + socket \<Rightarrow> Server \<times> store \<Rightarrow> error option \<times> Server \<times> store" where
  "Start_listen bound = (\<lambda>(s, m).
     case bound of
       Inl err \<Rightarrow>
         (Some err, s,
          m\<lparr>logged := logged m @
             [(Error, Some err, ''Failed to bind to '' @ Host (config s) @ '':'' @ Port (config s))]\<rparr>)
     | Inr sk \<Rightarrow>
         (None, s\<lparr>listener := Some (new_onceCloseListener sk)\<rparr>,
          m\<lparr>logged := logged m @ [(Info, None, ''kafka server started'')]\<rparr>))"

section \<open>Requests and the handler (request_handler.go)\<close>

text \<open>
  Modelled from the spec: \<open>models.Request\<close> is declared in \<open>internal/models\<close>, which is
  not among the sources. The spec gives a request a remote address and an opaque
  payload; the server's code knows them as the fields \<open>RemoteAddr\<close>, which the read
  stage writes, and \<open>Data\<close>, a Go string, which the handler reads. The code gives a
  request no sequence number. A Go string and the \<open>[]byte\<close> made from it are the same
  bytes.
\<close>

record Request =
  RemoteAddr :: string
  Data :: string

text \<open>The value returned by \<open>handleRequest\<close>; its debug line is not part of it.\<close>

definition handleRequest :: "Request \<Rightarrow> string \<times> error option" where
  "handleRequest request = (''Hello '' @ Data request @ ''!'', None)"

section \<open>Read stage (server.go, lines 188 to 229)\<close>

text \<open>
  The goroutine of \<open>createRequestChan\<close>. \<open>context.WithTimeout ctx d\<close> is
  \<open>WithDeadline ctx (now + d)\<close>: the deadline is fixed when the goroutine starts, before
  the loop. The results offered on \<open>readRequestChan\<close> are given with the instant
  (nanoseconds) at which each becomes available; a result is an error or a request, as
  \<open>encoders.ReadRequest\<close> returns. Every \<open>select\<close> takes the \<open>Done\<close> case when the
  deadline comes first (at the same instant Go may take either case; the model takes
  \<open>Done\<close>), and after the last result of the list nothing more arrives, so \<open>Done\<close> ends
  the loop. The parent context is not cancelled meanwhile. The function returns the
  requests sent on \<open>requestChan\<close>, the error sent on \<open>errChan\<close> before both are closed,
  and the log lines.
\<close>

fun request_loop ::
  "int \<Rightarrow> string \<Rightarrow> (int \<times> (error + Request)) list \<Rightarrow>
     Request list \<times> error option \<times> log_entry list" where
  "request_loop deadline remoteAddr [] = ([], None, [])"
| "request_loop deadline remoteAddr ((t, result) # later) =
     (if deadline \<le> t then ([], None, [])
      else case result of
             Inl err \<Rightarrow>
               if err = io_EOF \<or> err = net_ErrClosed
               then ([], None,
                     [(Debug, Some err,
                       ''No more data to read, connection '' @ remoteAddr @
                       '' is already closed. This error can be safely ignored.'')])
               else ([], Some err, [(Error, Some err, ''Error reading request'')])
           | Inr request \<Rightarrow>
               (let (sent, err, lg) = request_loop deadline remoteAddr later
                in (request\<lparr>RemoteAddr := remoteAddr\<rparr> # sent, err, lg)))"

definition createRequestChan ::
  "int \<Rightarrow> onceCloseConn \<Rightarrow> ServerConfig \<Rightarrow> (int \<times> (error + Request)) list \<Rightarrow>
     Request list \<times> error option \<times> log_entry list" where
  "createRequestChan now conn cfg reads =
     request_loop (now + sint (ConnIdleTimeout cfg)) (addr (Conn conn)) reads"

section \<open>Processing and write stages (server.go, lines 266 to 314)\<close>

text \<open>
  \<open>createResponseChan\<close> starts one goroutine for each request it receives; each
  goroutine calls the handler and, when the handler returns no error, sends the response
  on the unbuffered \<open>responseChan\<close>. \<open>sendResponses\<close> is the only receiver and writes
  and flushes each response before it receives the next, so the socket gets the responses
  in the order of the sends. Which of the running goroutines sends next is up to the Go
  scheduler. The state below is an interleaving of these goroutines:
  \<^item> \<open>requestChan\<close>: the decoded requests not yet received by the loop, in arrival order;
  \<^item> \<open>dispatched\<close>: how many have been received (the position of the next one);
  \<^item> \<open>workers\<close>: the goroutines started and not yet finished, each with the position of
    its request on the connection;
  \<^item> \<open>socket_out\<close>: the responses written to the socket so far, in order, each with the
    position of the request it answers.
  The positions are bookkeeping of this model: the code does not number requests or
  responses, and the socket receives \<open>map snd (socket_out p)\<close>. The steps are
  \<^item> \<open>dispatch\<close> (lines 273 to 288): the loop receives the next request and starts its
    goroutine;
  \<^item> \<open>respond\<close> (lines 283, 286 and 299 to 310): a goroutine's handler has returned no
    error, the goroutine sends the response and \<open>sendResponses\<close> writes and flushes it;
  \<^item> \<open>drop\<close> (lines 283 to 284): a goroutine's handler has returned an error, which is
    logged; the goroutine ends without sending.
  The handler is a parameter of the step relation so that the error branch is part of
  it; the server runs it with \<open>handleRequest\<close>. The steps are those of a connection
  whose context is not cancelled and whose writes succeed; the log is not tracked here.
\<close>

record pipeline =
  requestChan :: "Request list"
  dispatched :: nat
  workers :: "(nat \<times> Request) list"
  socket_out :: "(nat \<times> string) list"

inductive pipeline_step ::
  "(Request \<Rightarrow> string \<times> error option) \<Rightarrow> pipeline \<Rightarrow> pipeline \<Rightarrow> bool"
  for handler :: "Request \<Rightarrow> string \<times> error option" where
  dispatch:
    "requestChan p = request # rest \<Longrightarrow>
     pipeline_step handler p
       (p\<lparr>requestChan := rest, dispatched := Suc (dispatched p),
          workers := workers p @ [(dispatched p, request)]\<rparr>)"
| respond:
    "(k, req) \<in> set (workers p) \<Longrightarrow> handler req = (response, None) \<Longrightarrow>
     pipeline_step handler p
       (p\<lparr>workers := remove1 (k, req) (workers p),
          socket_out := socket_out p @ [(k, response)]\<rparr>)"
| drop:
    "(k, req) \<in> set (workers p) \<Longrightarrow> handler req = (response, Some err) \<Longrightarrow>
     pipeline_step handler p (p\<lparr>workers := remove1 (k, req) (workers p)\<rparr>)"

code_pred pipeline_step .

text \<open>A connection at its start, and one where every request has been handled.\<close>

definition connection_start :: "Request list \<Rightarrow> pipeline" where
  "connection_start reqs = \<lparr>requestChan = reqs, dispatched = 0, workers = [], socket_out = []\<rparr>"

definition drained :: "pipeline \<Rightarrow> bool" where
  "drained p = (requestChan p = [] \<and> workers p = [])"

section \<open>Notions used in the statements\<close>

text \<open>
  The state of a guard after \<open>Close\<close> has been called on it (the log does not
  influence it).
\<close>

definition closed_conn :: "onceCloseConn \<Rightarrow> onceCloseConn" where
  "closed_conn oc = fst (snd (conn_Close (oc, [])))"

text \<open>The handler returns no error for the request at position \<open>k\<close> of the connection.\<close>

definition handled_ok ::
  "(Request \<Rightarrow> string \<times> error option) \<Rightarrow> Request list \<Rightarrow> nat \<Rightarrow> bool" where
  "handled_ok h reqs k = (snd (h (reqs ! k)) = None)"

text \<open>
  What holds of every state a connection carrying \<open>reqs\<close> can reach: the channel holds
  the requests not yet received; each goroutine runs the request of its position; each
  written response is the handler's result for the request of its position; and every
  received request whose handler succeeds is either still running or written, once.
\<close>

definition pipeline_inv ::
  "(Request \<Rightarrow> string \<times> error option) \<Rightarrow> Request list \<Rightarrow> pipeline \<Rightarrow> bool" where
  "pipeline_inv h reqs p =
     (dispatched p \<le> length reqs \<and>
      requestChan p = drop (dispatched p) reqs \<and>
      (\<forall>(k, r)\<in>set (workers p). k < dispatched p \<and> r = reqs ! k) \<and>
      (\<forall>(k, b)\<in>set (socket_out p). k < dispatched p \<and> h (reqs ! k) = (b, None)) \<and>
      filter_mset (handled_ok h reqs) (image_mset fst (mset (workers p)))
        + image_mset fst (mset (socket_out p))
        = filter_mset (handled_ok h reqs) (mset [0..<dispatched p]))"

section \<open>Example inputs\<close>

text \<open>
  Sockets whose \<open>Close\<close> always succeeds or always fails with a given error, the
  configuration of \<open>main.go\<close>, a started server with the given registry keys, a store
  of fresh guards with an empty log, and a request as the read stage forwards it.
\<close>

definition clean_socket :: "string \<Rightarrow> socket" where
  "clean_socket a = \<lparr>addr = a, close_calls = 0, close_result = (\<lambda>_. None)\<rparr>"

definition broken_socket :: "string \<Rightarrow> error \<Rightarrow> socket" where
  "broken_socket a e = \<lparr>addr = a, close_calls = 0, close_result = (\<lambda>_. Some e)\<rparr>"

definition example_config :: ServerConfig where
  "example_config = \<lparr>Host = ''0.0.0.0'', Port = ''9092'', ConnIdleTimeout = 60000000000\<rparr>"

definition example_server :: "socket \<Rightarrow> conn_ref list \<Rightarrow> Server" where
  "example_server sk keys =
     \<lparr>config = example_config, listener = Some (new_onceCloseListener sk), conns = keys\<rparr>"

definition example_store :: "(conn_ref \<Rightarrow> socket) \<Rightarrow> store" where
  "example_store sockets = \<lparr>conn_at = (\<lambda>c. new_onceCloseConn (sockets c)), logged = []\<rparr>"

definition example_request :: "string \<Rightarrow> Request" where
  "example_request payload = \<lparr>RemoteAddr = ''10.0.0.1:5001'', Data = payload\<rparr>"

section \<open>Construction\<close>

text \<open>
  C8. \<open>NewServer\<close> fails with the configuration error exactly when the idle timeout is
  not positive, and otherwise returns a server whose \<open>Config\<close> is the given one.
\<close>

theorem NewServer_config:
  "(NewServer cfg = Inl (errors_New ''ConnIdleTimeout must be greater than 0'')
      \<longleftrightarrow> sint (ConnIdleTimeout cfg) \<le> 0) \<and>
   ((\<exists>e. NewServer cfg = Inl e) \<longleftrightarrow> sint (ConnIdleTimeout cfg) \<le> 0) \<and>
   (0 < sint (ConnIdleTimeout cfg) \<longrightarrow> (\<exists>s. NewServer cfg = Inr s \<and> Config s = cfg))"
  by (simp add: NewServer_def Config_def)

text \<open>The configuration of \<open>main.go\<close> (one minute) is accepted, a zero timeout is not.\<close>

theorem NewServer_config_witness:
  "0 < sint (ConnIdleTimeout example_config) \<and>
   (\<exists>s. NewServer example_config = Inr s \<and> Config s = example_config) \<and>
   sint (ConnIdleTimeout (example_config\<lparr>ConnIdleTimeout := 0\<rparr>)) \<le> 0 \<and>
   NewServer (example_config\<lparr>ConnIdleTimeout := 0\<rparr>)
     = Inl (errors_New ''ConnIdleTimeout must be greater than 0'')"
proof -
  have pos: "0 < sint (ConnIdleTimeout example_config)"
    by (simp add: example_config_def)
  have zero: "sint (ConnIdleTimeout (example_config\<lparr>ConnIdleTimeout := 0\<rparr>)) \<le> 0"
    by simp
  show ?thesis
    using pos zero NewServer_config [of example_config]
      NewServer_config [of "example_config\<lparr>ConnIdleTimeout := 0\<rparr>"]
    by blast
qed

section \<open>Once-close guards\<close>

lemma listener_Close_done: "l_once l \<Longrightarrow> listener_Close l = (l_closeErr l, l)"
  by (simp add: listener_Close_def)

lemma listener_Close_sets:
  "l_once (snd (listener_Close l)) \<and> l_closeErr (snd (listener_Close l)) = fst (listener_Close l)"
  by (simp add: listener_Close_def socket_Close_def)

lemma listener_Close_twice:
  "listener_Close (snd (listener_Close l)) = (fst (listener_Close l), snd (listener_Close l))"
  using listener_Close_sets [of l] by (simp add: listener_Close_done)

lemma listener_Close_many:
  "((snd \<circ> listener_Close) ^^ Suc n) l = snd (listener_Close l)"
  by (induction n) (simp_all add: listener_Close_twice)

lemma listener_close_calls:
  "close_calls (Listener (snd (listener_Close l))) =
     (if l_once l then close_calls (Listener l) else Suc (close_calls (Listener l)))"
  by (simp add: listener_Close_def socket_Close_def)

lemma conn_Close_done: "once c \<Longrightarrow> conn_Close (c, lg) = (closeErr c, c, lg)"
  by (simp add: conn_Close_def)

lemma conn_Close_sets:
  "once (fst (snd (conn_Close (c, lg)))) \<and>
   closeErr (fst (snd (conn_Close (c, lg)))) = fst (conn_Close (c, lg))"
  by (simp add: conn_Close_def socket_Close_def Let_def)

lemma conn_Close_twice:
  "conn_Close (snd (conn_Close (c, lg))) = (fst (conn_Close (c, lg)), snd (conn_Close (c, lg)))"
proof -
  obtain c' lg' where s: "snd (conn_Close (c, lg)) = (c', lg')"
    by (cases "snd (conn_Close (c, lg))")
  with conn_Close_sets [of c lg] have "once c'" "closeErr c' = fst (conn_Close (c, lg))"
    by simp_all
  then show ?thesis by (simp add: s conn_Close_done)
qed

lemma conn_Close_many:
  "((snd \<circ> conn_Close) ^^ Suc n) (c, lg) = snd (conn_Close (c, lg))"
  by (induction n) (simp_all add: conn_Close_twice)

lemma conn_close_calls:
  "close_calls (Conn (fst (snd (conn_Close (c, lg))))) =
     (if once c then close_calls (Conn c) else Suc (close_calls (Conn c)))"
  by (simp add: conn_Close_def socket_Close_def Let_def)

text \<open>
  C7. For the guard of the listening socket and the guard of an accepted socket alike:
  after one or more calls of \<open>Close\<close> (\<open>Suc n\<close> of them), a further call returns what
  the first call returned and leaves the guard, the socket under it and the log exactly
  as the first call left them. Over all these calls the socket under the guard is closed
  once if the guard was unused, and not at all if it was used before. In particular
  \<open>Close; Close\<close> has the result and the state of a single \<open>Close\<close> (\<open>n = 0\<close>).
\<close>

theorem once_close_idempotent:
  "listener_Close (((snd \<circ> listener_Close) ^^ Suc n) l)
     = (fst (listener_Close l), snd (listener_Close l)) \<and>
   close_calls (Listener (((snd \<circ> listener_Close) ^^ Suc n) l))
     = (if l_once l then close_calls (Listener l) else Suc (close_calls (Listener l))) \<and>
   conn_Close (((snd \<circ> conn_Close) ^^ Suc n) (c, lg))
     = (fst (conn_Close (c, lg)), snd (conn_Close (c, lg))) \<and>
   close_calls (Conn (fst (((snd \<circ> conn_Close) ^^ Suc n) (c, lg))))
     = (if once c then close_calls (Conn c) else Suc (close_calls (Conn c)))"
  unfolding listener_Close_many conn_Close_many
  by (simp only: listener_Close_twice conn_Close_twice listener_close_calls conn_close_calls
      simp_thms)

section \<open>Shutdown\<close>

lemma conn_Close_state: "fst (snd (conn_Close (oc, lg))) = closed_conn oc"
  by (simp add: closed_conn_def conn_Close_def Let_def split: prod.splits)

lemma conn_Close_result: "fst (conn_Close (oc, lg)) = closeErr (closed_conn oc)"
  by (simp add: closed_conn_def conn_Close_def Let_def split: prod.splits)

lemma conn_Close_log: "\<exists>more. snd (snd (conn_Close (oc, lg))) = lg @ more"
  by (simp add: conn_Close_def Let_def split: prod.splits)

lemma closed_conn_twice: "closed_conn (closed_conn oc) = closed_conn oc"
  by (simp add: closed_conn_def conn_Close_def Let_def split: prod.splits)

lemma closed_conn_addr: "addr (Conn (closed_conn oc)) = addr (Conn oc)"
  by (simp add: closed_conn_def conn_Close_def socket_Close_def Let_def split: prod.splits)

lemma closed_conn_once: "once (closed_conn oc)"
  by (simp add: closed_conn_def conn_Close_def socket_Close_def Let_def split: prod.splits)


text \<open>
  The loop over the registry: every key visited is deleted, the guard it points to is
  left as \<open>Close\<close> leaves it, nothing else in the store changes but the log, which only
  grows, and a failed close leaves an error line.
\<close>

lemma close_conns_effect:
  "close_conns cs (s, m) = (s', m') \<Longrightarrow>
     conns s' = filter (\<lambda>c. c \<notin> set cs) (conns s) \<and>
     listener s' = listener s \<and> config s' = config s \<and>
     (\<forall>c. conn_at m' c = (if c \<in> set cs then closed_conn (conn_at m c) else conn_at m c)) \<and>
     (\<exists>more. logged m' = logged m @ more) \<and>
     (\<forall>c\<in>set cs. \<forall>e. closeErr (closed_conn (conn_at m c)) = Some e \<longrightarrow>
        (Error, Some e, ''Error closing connection '' @ addr (Conn (conn_at m c))) \<in> set (logged m'))"
proof (induction cs arbitrary: s m)
  case Nil
  then show ?case by simp
next
  case (Cons c cs)
  obtain err oc lg where cl: "conn_Close (conn_at m c, logged m) = (err, oc, lg)"
    by (cases "conn_Close (conn_at m c, logged m)") auto
  have oc: "oc = closed_conn (conn_at m c)"
    using conn_Close_state [of "conn_at m c" "logged m"] cl by simp
  have err: "err = closeErr (closed_conn (conn_at m c))"
    using conn_Close_result [of "conn_at m c" "logged m"] cl by simp
  obtain more where lg: "lg = logged m @ more"
    using conn_Close_log [of "conn_at m c" "logged m"] cl by auto
  define lg' where "lg' = (case err of None \<Rightarrow> lg
      | Some e \<Rightarrow> lg @ [(Error, Some e, ''Error closing connection '' @ addr (Conn oc))])"
  define s1 where "s1 = s\<lparr>conns := removeAll c (conns s)\<rparr>"
  define m1 where "m1 = m\<lparr>conn_at := (conn_at m)(c := oc), logged := lg'\<rparr>"
  have rec: "close_conns cs (s1, m1) = (s', m')"
    using Cons.prems by (simp add: cl lg'_def s1_def m1_def)
  note IH = Cons.IH [OF rec]
  have lg'_ext: "\<exists>more. lg' = logged m @ more"
    by (cases err) (simp_all add: lg'_def lg)
  have logged_c: "\<forall>e. closeErr (closed_conn (conn_at m c)) = Some e \<longrightarrow>
        (Error, Some e, ''Error closing connection '' @ addr (Conn (conn_at m c))) \<in> set lg'"
    by (auto simp: lg'_def err [symmetric] oc closed_conn_addr)
  have "conns s' = filter (\<lambda>x. x \<notin> set (c # cs)) (conns s)"
  proof -
    have "conns s' = filter (\<lambda>x. x \<notin> set cs) (removeAll c (conns s))"
      using IH by (simp add: s1_def)
    also have "\<dots> = filter (\<lambda>x. x \<notin> set (c # cs)) (conns s)"
      by (simp add: removeAll_filter_not_eq) (rule filter_cong, auto)
    finally show ?thesis .
  qed
  moreover have "listener s' = listener s \<and> config s' = config s"
    using IH by (simp add: s1_def)
  moreover have "\<forall>x. conn_at m' x =
      (if x \<in> set (c # cs) then closed_conn (conn_at m x) else conn_at m x)"
    using IH by (auto simp: m1_def oc closed_conn_twice)
  moreover have "\<exists>more. logged m' = logged m @ more"
    using IH lg'_ext by (auto simp: m1_def)
  moreover have "\<forall>x\<in>set (c # cs). \<forall>e. closeErr (closed_conn (conn_at m x)) = Some e \<longrightarrow>
        (Error, Some e, ''Error closing connection '' @ addr (Conn (conn_at m x))) \<in> set (logged m')"
  proof (intro ballI allI impI)
    fix x e assume x: "x \<in> set (c # cs)" and e: "closeErr (closed_conn (conn_at m x)) = Some e"
    show "(Error, Some e, ''Error closing connection '' @ addr (Conn (conn_at m x))) \<in> set (logged m')"
    proof (cases "x \<in> set cs")
      case True
      have "conn_at m1 x = (if x = c then closed_conn (conn_at m c) else conn_at m x)"
        by (simp add: m1_def oc)
      then have "closed_conn (conn_at m1 x) = closed_conn (conn_at m x)"
        "addr (Conn (conn_at m1 x)) = addr (Conn (conn_at m x))"
        by (auto simp: closed_conn_twice closed_conn_addr)
      with IH True e show ?thesis by auto
    next
      case False
      with x have "x = c" by simp
      with logged_c e have "(Error, Some e, ''Error closing connection '' @ addr (Conn (conn_at m x))) \<in> set lg'"
        by simp
      moreover obtain more where "logged m' = lg' @ more" using IH by (auto simp: m1_def)
      ultimately show ?thesis by simp
    qed
  qed
  ultimately show ?case by blast
qed


text \<open>
  C4, as the code has it. When the listener closes without error, \<open>ForceShutdown\<close>
  calls \<open>Close\<close> on every registered connection, also after an earlier one has failed,
  and empties the registry. The error of a failed connection close is written to the
  log and not returned: the call returns \<open>nil\<close>.
\<close>

theorem ForceShutdown_closes_every_conn:
  assumes "listener s = Some l" and "fst (listener_Close l) = None"
  shows "\<exists>s' m'. ForceShutdown (s, m) = Return (None, s', m') \<and>
           conns s' = [] \<and>
           (\<forall>c\<in>set (conns s). conn_at m' c = closed_conn (conn_at m c)) \<and>
           (\<forall>c\<in>set (conns s). \<forall>e. closeErr (closed_conn (conn_at m c)) = Some e \<longrightarrow>
              (Error, Some e, ''Error closing connection '' @ addr (Conn (conn_at m c)))
                \<in> set (logged m'))"
proof -
  obtain l' where l': "listener_Close l = (None, l')"
    using assms(2) by (cases "listener_Close l") auto
  define s1 where "s1 = s\<lparr>listener := Some l'\<rparr>"
  define m1 where
    "m1 = m\<lparr>logged := logged m @ [(Info, None, ''Force shutting down kafka server'')]\<rparr>"
  obtain s' m' where r: "close_conns (conns s1) (s1, m1) = (s', m')"
    by (cases "close_conns (conns s1) (s1, m1)") auto
  have fs: "ForceShutdown (s, m) = Return (None, s', m')"
    using assms(1) l' r by (simp add: ForceShutdown_def s1_def m1_def)
  note E = close_conns_effect [OF r]
  have "conns s' = []" using E by (simp add: s1_def)
  moreover have "\<forall>c\<in>set (conns s). conn_at m' c = closed_conn (conn_at m c)"
    using E by (simp add: s1_def m1_def)
  moreover have "\<forall>c\<in>set (conns s). \<forall>e. closeErr (closed_conn (conn_at m c)) = Some e \<longrightarrow>
              (Error, Some e, ''Error closing connection '' @ addr (Conn (conn_at m c)))
                \<in> set (logged m')"
    using E by (simp add: s1_def m1_def)
  ultimately show ?thesis using fs by blast
qed

text \<open>
  A server with two registered connections; closing the first fails with
  \<open>broken pipe\<close>. \<open>ForceShutdown\<close> returns \<open>nil\<close> all the same: the failure is not
  passed on to the caller.
\<close>

theorem ForceShutdown_swallows_conn_error:
  "case ForceShutdown
          (example_server (clean_socket ''0.0.0.0:9092'') [11, 12],
           example_store ((\<lambda>_. clean_socket ''10.0.0.2:5002'')
              (11 := broken_socket ''10.0.0.1:5001'' (errors_New ''broken pipe''))))
   of Panic \<Rightarrow> False
    | Return (err, s', m') \<Rightarrow>
        closeErr (conn_at m' 11) = Some (errors_New ''broken pipe'') \<and> err = None"
  by (simp add: example_server_def example_store_def clean_socket_def broken_socket_def
      new_onceCloseListener_def new_onceCloseConn_def
      ForceShutdown_def listener_Close_def conn_Close_def socket_Close_def)

text \<open>
  On the same server both connections are closed, the second after the failure of the
  first, the registry is empty and the failure is in the log.
\<close>

theorem ForceShutdown_closes_every_conn_witness:
  "listener (example_server (clean_socket ''0.0.0.0:9092'') [11, 12])
     = Some (new_onceCloseListener (clean_socket ''0.0.0.0:9092'')) \<and>
   fst (listener_Close (new_onceCloseListener (clean_socket ''0.0.0.0:9092''))) = None \<and>
   (\<exists>s' m'. ForceShutdown
          (example_server (clean_socket ''0.0.0.0:9092'') [11, 12],
           example_store ((\<lambda>_. clean_socket ''10.0.0.2:5002'')
              (11 := broken_socket ''10.0.0.1:5001'' (errors_New ''broken pipe''))))
        = Return (None, s', m') \<and> conns s' = [] \<and>
      once (conn_at m' 11) \<and> close_calls (Conn (conn_at m' 11)) = 1 \<and>
      once (conn_at m' 12) \<and> close_calls (Conn (conn_at m' 12)) = 1 \<and>
      (Error, Some (errors_New ''broken pipe''), ''Error closing connection 10.0.0.1:5001'')
        \<in> set (logged m'))"
proof -
  let ?s = "example_server (clean_socket ''0.0.0.0:9092'') [11, 12]"
  let ?l = "new_onceCloseListener (clean_socket ''0.0.0.0:9092'')"
  let ?m = "example_store ((\<lambda>_. clean_socket ''10.0.0.2:5002'')
              (11 := broken_socket ''10.0.0.1:5001'' (errors_New ''broken pipe'')))"
  have h1: "listener ?s = Some ?l" by (simp add: example_server_def)
  have h2: "fst (listener_Close ?l) = None"
    by (simp add: new_onceCloseListener_def clean_socket_def listener_Close_def
        socket_Close_def)
  have c1: "closed_conn (conn_at ?m 11) =
      \<lparr>Conn = \<lparr>addr = ''10.0.0.1:5001'', close_calls = 1,
                close_result = (\<lambda>_. Some (errors_New ''broken pipe''))\<rparr>,
        once = True, closeErr = Some (errors_New ''broken pipe'')\<rparr>"
    by (simp add: closed_conn_def example_store_def broken_socket_def new_onceCloseConn_def
        conn_Close_def socket_Close_def)
  have c2: "closed_conn (conn_at ?m 12) =
      \<lparr>Conn = \<lparr>addr = ''10.0.0.2:5002'', close_calls = 1, close_result = (\<lambda>_. None)\<rparr>,
        once = True, closeErr = None\<rparr>"
    by (simp add: closed_conn_def example_store_def clean_socket_def new_onceCloseConn_def
        conn_Close_def socket_Close_def)
  have a1: "addr (Conn (conn_at ?m 11)) = ''10.0.0.1:5001''"
    by (simp add: example_store_def broken_socket_def new_onceCloseConn_def)
  have ks: "conns ?s = [11, 12]" by (simp add: example_server_def)
  from ForceShutdown_closes_every_conn [OF h1 h2, of ?m, unfolded ks]
  obtain s' m' where r: "ForceShutdown (?s, ?m) = Return (None, s', m')" "conns s' = []"
    "\<forall>c\<in>set [11, 12]. conn_at m' c = closed_conn (conn_at ?m c)"
    "\<forall>c\<in>set [11, 12]. \<forall>e. closeErr (closed_conn (conn_at ?m c)) = Some e \<longrightarrow>
              (Error, Some e, ''Error closing connection '' @ addr (Conn (conn_at ?m c)))
                \<in> set (logged m')"
    by blast
  from r(3) have m1: "conn_at m' 11 = closed_conn (conn_at ?m 11)"
    and m2: "conn_at m' 12 = closed_conn (conn_at ?m 12)" by simp_all
  from r(4) have lg: "(Error, Some (errors_New ''broken pipe''),
      ''Error closing connection '' @ addr (Conn (conn_at ?m 11))) \<in> set (logged m')"
    using c1 by simp
  have "once (conn_at m' 11) \<and> close_calls (Conn (conn_at m' 11)) = 1 \<and>
      once (conn_at m' 12) \<and> close_calls (Conn (conn_at m' 12)) = 1"
    by (simp add: m1 m2 c1 c2)
  moreover have "(Error, Some (errors_New ''broken pipe''),
      ''Error closing connection 10.0.0.1:5001'') \<in> set (logged m')"
    using lg by (simp add: a1)
  ultimately show ?thesis using h1 h2 r(1) r(2) by blast
qed

text \<open>
  C5, on a server whose listener fails to close. \<open>ForceShutdown\<close> returns the
  listener's error before the loop: the registered connection is still in the registry,
  and \<open>Close\<close> has not been called on it.
\<close>

theorem ForceShutdown_listener_error_leaves_conns:
  "case ForceShutdown
          (example_server (broken_socket ''0.0.0.0:9092'' (errors_New ''close failed'')) [11],
           example_store (\<lambda>_. clean_socket ''10.0.0.1:5001''))
   of Panic \<Rightarrow> False
    | Return (err, s', m') \<Rightarrow>
        err = Some (errors_New ''close failed'') \<and> conns s' = [11] \<and>
        \<not> once (conn_at m' 11) \<and> close_calls (Conn (conn_at m' 11)) = 0"
  by (simp add: example_server_def example_store_def clean_socket_def broken_socket_def
      new_onceCloseListener_def new_onceCloseConn_def
      ForceShutdown_def listener_Close_def socket_Close_def)

text \<open>
  C3, on a server with one open connection. \<open>Shutdown\<close> is \<open>ForceShutdown\<close>: by the
  time it returns it has closed the connection's socket and emptied the registry, with
  no regard to requests in progress on that connection and without waiting for its
  pipeline.
\<close>

theorem Shutdown_closes_at_once:
  "Shutdown (example_server (clean_socket ''0.0.0.0:9092'') [11],
             example_store (\<lambda>_. clean_socket ''10.0.0.1:5001''))
     = ForceShutdown (example_server (clean_socket ''0.0.0.0:9092'') [11],
                      example_store (\<lambda>_. clean_socket ''10.0.0.1:5001'')) \<and>
   (case Shutdown (example_server (clean_socket ''0.0.0.0:9092'') [11],
                   example_store (\<lambda>_. clean_socket ''10.0.0.1:5001''))
    of Panic \<Rightarrow> False
     | Return (err, s', m') \<Rightarrow>
         err = None \<and> conns s' = [] \<and> close_calls (Conn (conn_at m' 11)) = 1)"
  by (simp add: Shutdown_def example_server_def example_store_def clean_socket_def
      new_onceCloseListener_def new_onceCloseConn_def
      ForceShutdown_def listener_Close_def conn_Close_def socket_Close_def)

text \<open>
  C10. \<open>ForceShutdown\<close> and \<open>Shutdown\<close> panic exactly when the \<open>listener\<close> field is
  \<open>nil\<close>. It is \<open>nil\<close> in the server that \<open>NewServer\<close> returns and stays so when
  \<open>Start\<close> fails to bind; only after \<open>Start\<close> has bound the socket does
  \<open>ForceShutdown\<close> return.
\<close>

theorem ForceShutdown_nil_listener:
  "(ForceShutdown (s, m) = Panic \<longleftrightarrow> listener s = None) \<and>
   (Shutdown (s, m) = Panic \<longleftrightarrow> listener s = None) \<and>
   (NewServer cfg = Inr s \<longrightarrow>
      ForceShutdown (s, m) = Panic \<and> Shutdown (s, m) = Panic \<and>
      (case Start_listen (Inl e) (s, m) of
         (r, s1, m1) \<Rightarrow> r = Some e \<and> ForceShutdown (s1, m1) = Panic) \<and>
      (case Start_listen (Inr sk) (s, m) of
         (r, s1, m1) \<Rightarrow> r = None \<and> ForceShutdown (s1, m1) \<noteq> Panic))"
  by (auto simp: ForceShutdown_def Shutdown_def NewServer_def Start_listen_def Let_def
      split: option.splits prod.splits if_splits)

text \<open>The server made from the configuration of \<open>main.go\<close>, shut down before \<open>Start\<close>.\<close>

theorem ForceShutdown_nil_listener_witness:
  "NewServer example_config = Inr \<lparr>config = example_config, listener = None, conns = []\<rparr> \<and>
   ForceShutdown (\<lparr>config = example_config, listener = None, conns = []\<rparr>,
                  example_store (\<lambda>_. clean_socket ''10.0.0.1:5001'')) = Panic \<and>
   Shutdown (\<lparr>config = example_config, listener = None, conns = []\<rparr>,
             example_store (\<lambda>_. clean_socket ''10.0.0.1:5001'')) = Panic"
proof -
  have h: "NewServer example_config
      = Inr \<lparr>config = example_config, listener = None, conns = []\<rparr>"
    by (simp add: NewServer_def example_config_def)
  show ?thesis
    using h ForceShutdown_nil_listener
      [of "\<lparr>config = example_config, listener = None, conns = []\<rparr>"
          "example_store (\<lambda>_. clean_socket ''10.0.0.1:5001'')" example_config]
    by simp
qed


section \<open>Read stage\<close>

text \<open>
  C2, on a connection with an idle timeout of 50 ms on which request \<open>A\<close> is decoded
  30 ms and request \<open>B\<close> 60 ms after the connection started, that is 30 ms after the
  last successful read. The deadline set before the loop is not moved by the read of
  \<open>A\<close>: the loop ends at 50 ms, \<open>B\<close> is never forwarded, and nothing is sent on
  \<open>errChan\<close>, so the pipeline learns of no error.
\<close>

theorem idle_deadline_not_restarted:
  "createRequestChan 0 (new_onceCloseConn (clean_socket ''10.0.0.1:5001''))
     \<lparr>Host = ''0.0.0.0'', Port = ''9092'', ConnIdleTimeout = 50000000\<rparr>
     [(30000000, Inr \<lparr>RemoteAddr = [], Data = ''A''\<rparr>),
      (60000000, Inr \<lparr>RemoteAddr = [], Data = ''B''\<rparr>)]
   = ([\<lparr>RemoteAddr = ''10.0.0.1:5001'', Data = ''A''\<rparr>], None, []) \<and>
   60000000 - 30000000
     < sint (ConnIdleTimeout \<lparr>Host = ''0.0.0.0'', Port = ''9092'', ConnIdleTimeout = 50000000\<rparr>)"
  by (simp add: createRequestChan_def new_onceCloseConn_def clean_socket_def)

section \<open>Processing and write stages\<close>

subsection \<open>What every reachable state satisfies\<close>

lemma drop_eq_Cons:
  assumes "drop d xs = x # rest"
  shows "d < length xs \<and> x = xs ! d \<and> rest = drop (Suc d) xs"
proof -
  have d: "d < length xs" using assms by (cases "d < length xs") auto
  from Cons_nth_drop_Suc [OF d] assms show ?thesis using d by simp
qed

lemma mset_remove1_member:
  "x \<in> set xs \<Longrightarrow> mset xs = add_mset x (mset (remove1 x xs))"
  by simp

lemma pipeline_inv_start: "pipeline_inv h reqs (connection_start reqs)"
  by (simp add: pipeline_inv_def connection_start_def)

lemma pipeline_inv_step:
  assumes inv: "pipeline_inv h reqs p" and st: "pipeline_step h p q"
  shows "pipeline_inv h reqs q"
  using st
proof cases
  case (dispatch request rest)
  from inv have ch: "requestChan p = drop (dispatched p) reqs"
    by (simp add: pipeline_inv_def)
  from drop_eq_Cons [of "dispatched p" reqs request rest] ch dispatch(2)
  have d: "dispatched p < length reqs" and r: "request = reqs ! dispatched p"
    and rest: "rest = drop (Suc (dispatched p)) reqs" by simp_all
  show ?thesis
    using inv d r rest
    by (auto simp: pipeline_inv_def dispatch(1) less_Suc_eq)
next
  case (respond k req response)
  from inv respond(2) have kr: "k < dispatched p" "req = reqs ! k"
    by (auto simp: pipeline_inv_def)
  with respond(3) have ok: "handled_ok h reqs k" by (simp add: handled_ok_def)
  have ws: "mset (workers p) = add_mset (k, req) (mset (remove1 (k, req) (workers p)))"
    using respond(2) by (rule mset_remove1_member)
  have sub: "set (remove1 (k, req) (workers p)) \<subseteq> set (workers p)"
    by (rule set_remove1_subset)
  have eq: "filter_mset (handled_ok h reqs) (image_mset fst (mset (workers p)))
        + image_mset fst (mset (socket_out p))
        = filter_mset (handled_ok h reqs) (mset [0..<dispatched p])"
    using inv by (simp add: pipeline_inv_def)
  have "filter_mset (handled_ok h reqs) (image_mset fst (mset (remove1 (k, req) (workers p))))
        + image_mset fst (mset (socket_out p @ [(k, response)]))
        = filter_mset (handled_ok h reqs) (mset [0..<dispatched p])"
    using eq ok by (subst (asm) ws) simp
  then show ?thesis
    using inv sub kr respond(3)
    by (auto simp: pipeline_inv_def respond(1))
next
  case (drop k req response err)
  from inv drop(2) have kr: "k < dispatched p" "req = reqs ! k"
    by (auto simp: pipeline_inv_def)
  with drop(3) have ok: "\<not> handled_ok h reqs k" by (simp add: handled_ok_def)
  have ws: "mset (workers p) = add_mset (k, req) (mset (remove1 (k, req) (workers p)))"
    using drop(2) by (rule mset_remove1_member)
  have sub: "set (remove1 (k, req) (workers p)) \<subseteq> set (workers p)"
    by (rule set_remove1_subset)
  have eq: "filter_mset (handled_ok h reqs) (image_mset fst (mset (workers p)))
        + image_mset fst (mset (socket_out p))
        = filter_mset (handled_ok h reqs) (mset [0..<dispatched p])"
    using inv by (simp add: pipeline_inv_def)
  have "filter_mset (handled_ok h reqs) (image_mset fst (mset (remove1 (k, req) (workers p))))
        + image_mset fst (mset (socket_out p))
        = filter_mset (handled_ok h reqs) (mset [0..<dispatched p])"
    using eq ok by (subst (asm) ws) simp
  then show ?thesis
    using inv sub
    by (auto simp: pipeline_inv_def drop(1))
qed

lemma pipeline_inv_run:
  "(pipeline_step h)\<^sup>*\<^sup>* (connection_start reqs) p \<Longrightarrow> pipeline_inv h reqs p"
  by (induction rule: rtranclp_induct) (auto intro: pipeline_inv_start pipeline_inv_step)

lemma pipeline_inv_drained:
  assumes "pipeline_inv h reqs p" and "drained p"
  shows "dispatched p = length reqs"
    and "image_mset fst (mset (socket_out p))
           = filter_mset (handled_ok h reqs) (mset [0..<length reqs])"
proof -
  from assms have "drop (dispatched p) reqs = []" "dispatched p \<le> length reqs"
    by (simp_all add: pipeline_inv_def drained_def)
  then show d: "dispatched p = length reqs" by simp
  from assms show "image_mset fst (mset (socket_out p))
           = filter_mset (handled_ok h reqs) (mset [0..<length reqs])"
    unfolding d [symmetric] by (simp add: pipeline_inv_def drained_def)
qed

lemma pipeline_inv_written:
  assumes "pipeline_inv h reqs p" and "(k, b) \<in> set (socket_out p)"
  shows "k < length reqs \<and> h (reqs ! k) = (b, None)"
  using assms by (auto simp: pipeline_inv_def)

lemma written_responses:
  assumes "pipeline_inv h reqs p"
  shows "map snd (socket_out p) = map (\<lambda>k. fst (h (reqs ! k))) (map fst (socket_out p))"
proof -
  have "\<forall>x\<in>set (socket_out p). snd x = fst (h (reqs ! fst x))"
    using pipeline_inv_written [OF assms] by (metis fst_conv prod.collapse)
  then show ?thesis by (simp cong: map_cong)
qed

lemma map_nth_upt: "map (\<lambda>k. f (xs ! k)) [0..<length xs] = map f xs"
proof -
  have "map (\<lambda>k. f (xs ! k)) [0..<length xs] = map f (map (\<lambda>k. xs ! k) [0..<length xs])"
    by simp
  then show ?thesis by (simp only: map_nth)
qed

lemma pipeline_progress:
  assumes "\<not> drained p"
  shows "\<exists>q. pipeline_step h p q"
proof (cases "requestChan p")
  case (Cons request rest)
  then show ?thesis by (blast intro: pipeline_step.dispatch)
next
  case Nil
  with assms obtain k req ws where w: "workers p = (k, req) # ws"
    by (cases "workers p") (auto simp: drained_def)
  then have m: "(k, req) \<in> set (workers p)" by simp
  obtain response e where hr: "h req = (response, e)" by (cases "h req")
  show ?thesis
  proof (cases e)
    case None
    with m hr show ?thesis by (blast intro: pipeline_step.respond)
  next
    case (Some err)
    with m hr show ?thesis by (blast intro: pipeline_step.drop)
  qed
qed

lemma pipeline_step_measure:
  assumes "pipeline_step h p q"
  shows "2 * length (requestChan q) + length (workers q)
           < 2 * length (requestChan p) + length (workers p)"
  using assms
proof cases
  case (dispatch request rest)
  then show ?thesis by simp
next
  case (respond k req response)
  then have "workers p \<noteq> []" by auto
  with respond show ?thesis by (simp add: length_remove1)
next
  case (drop k req response err)
  then have "workers p \<noteq> []" by auto
  with drop show ?thesis by (simp add: length_remove1)
qed

lemma pipeline_drains:
  "\<exists>q. (pipeline_step h)\<^sup>*\<^sup>* p q \<and> drained q"
proof (induction "2 * length (requestChan p) + length (workers p)" arbitrary: p rule: less_induct)
  case less
  show ?case
  proof (cases "drained p")
    case True
    then show ?thesis by blast
  next
    case False
    then obtain q where st: "pipeline_step h p q" using pipeline_progress by blast
    from less [OF pipeline_step_measure [OF st]]
    obtain r where "(pipeline_step h)\<^sup>*\<^sup>* q r" "drained r" by blast
    with st show ?thesis by (blast intro: converse_rtranclp_into_rtranclp)
  qed
qed


text \<open>
  With \<open>handleRequest\<close> no response is dropped: once every request has been handled,
  the socket holds one response for each position.
\<close>

lemma drained_socket_out:
  assumes "(pipeline_step handleRequest)\<^sup>*\<^sup>* (connection_start reqs) p" and "drained p"
  shows "mset (map snd (socket_out p)) = mset (map (\<lambda>r. ''Hello '' @ Data r @ ''!'') reqs)"
    and "mset (map fst (socket_out p)) = mset [0..<length reqs]"
proof -
  have inv: "pipeline_inv handleRequest reqs p" using assms(1) by (rule pipeline_inv_run)
  have ok: "handled_ok handleRequest reqs = (\<lambda>_. True)"
    by (simp add: handled_ok_def handleRequest_def fun_eq_iff)
  show idx: "mset (map fst (socket_out p)) = mset [0..<length reqs]"
    using pipeline_inv_drained(2) [OF inv assms(2)] by (simp add: ok)
  have "mset (map snd (socket_out p))
      = image_mset (\<lambda>k. fst (handleRequest (reqs ! k))) (mset (map fst (socket_out p)))"
    by (subst written_responses [OF inv]) (simp only: mset_map)
  also have "\<dots> = mset (map (\<lambda>k. fst (handleRequest (reqs ! k))) [0..<length reqs])"
    using idx by simp
  also have "\<dots> = mset (map (\<lambda>r. fst (handleRequest r)) reqs)"
    using map_nth_upt [of "\<lambda>r. fst (handleRequest r)" reqs] by simp
  finally show "mset (map snd (socket_out p))
      = mset (map (\<lambda>r. ''Hello '' @ Data r @ ''!'') reqs)"
    by (simp add: handleRequest_def)
qed

subsection \<open>Building runs\<close>

lemma run3:
  "pipeline_step h p0 p1 \<Longrightarrow> pipeline_step h p1 p2 \<Longrightarrow> pipeline_step h p2 p3 \<Longrightarrow>
   (pipeline_step h)\<^sup>*\<^sup>* p0 p3"
  by (meson rtranclp.rtrancl_into_rtrancl rtranclp.rtrancl_refl)

lemma run_append:
  "(pipeline_step h)\<^sup>*\<^sup>* p0 p1 \<Longrightarrow> (pipeline_step h)\<^sup>*\<^sup>* p1 p2 \<Longrightarrow>
   (pipeline_step h)\<^sup>*\<^sup>* p0 p2"
  by (rule rtranclp_trans)

lemma dispatch_to:
  "requestChan p = request # rest \<Longrightarrow>
   q = \<lparr>requestChan = rest, dispatched = Suc (dispatched p),
        workers = workers p @ [(dispatched p, request)], socket_out = socket_out p\<rparr> \<Longrightarrow>
   pipeline_step h p q"
  using pipeline_step.dispatch [of p request rest h] by (cases p) simp

lemma respond_to:
  "(k, req) \<in> set (workers p) \<Longrightarrow> h req = (response, None) \<Longrightarrow>
   q = \<lparr>requestChan = requestChan p, dispatched = dispatched p,
        workers = remove1 (k, req) (workers p),
        socket_out = socket_out p @ [(k, response)]\<rparr> \<Longrightarrow>
   pipeline_step h p q"
  using pipeline_step.respond [of k req p h response] by (cases p) simp

lemma drop_to:
  "(k, req) \<in> set (workers p) \<Longrightarrow> h req = (response, Some err) \<Longrightarrow>
   q = \<lparr>requestChan = requestChan p, dispatched = dispatched p,
        workers = remove1 (k, req) (workers p), socket_out = socket_out p\<rparr> \<Longrightarrow>
   pipeline_step h p q"
  using pipeline_step.drop [of k req p h response err] by (cases p) simp

text \<open>
  One schedule is always possible: each goroutine finishes before the next request is
  received. It writes the responses in arrival order.
\<close>

lemma in_order_run_from:
  "(pipeline_step handleRequest)\<^sup>*\<^sup>*
     \<lparr>requestChan = rs, dispatched = d, workers = [], socket_out = out\<rparr>
     \<lparr>requestChan = [], dispatched = d + length rs, workers = [],
      socket_out = out @ zip [d..<d + length rs] (map (\<lambda>r. ''Hello '' @ Data r @ ''!'') rs)\<rparr>"
proof (induction rs arbitrary: d out)
  case Nil
  show ?case by simp
next
  case (Cons r rs)
  let ?resp = "''Hello '' @ Data r @ ''!''"
  let ?p1 = "\<lparr>requestChan = rs, dispatched = Suc d, workers = [(d, r)], socket_out = out\<rparr>"
  let ?p2 = "\<lparr>requestChan = rs, dispatched = Suc d, workers = [],
              socket_out = out @ [(d, ?resp)]\<rparr>"
  have s1: "pipeline_step handleRequest
      \<lparr>requestChan = r # rs, dispatched = d, workers = [], socket_out = out\<rparr> ?p1"
    by (rule dispatch_to [of _ r rs]) simp_all
  have s2: "pipeline_step handleRequest ?p1 ?p2"
    by (rule respond_to [of d r _ _ ?resp]) (simp_all add: handleRequest_def)
  have z: "[d..<d + length (r # rs)] = d # [Suc d..<Suc d + length rs]"
    using upt_conv_Cons [of d "d + Suc (length rs)"] by simp
  from Cons.IH [of "Suc d" "out @ [(d, ?resp)]"]
  have "(pipeline_step handleRequest)\<^sup>*\<^sup>* ?p2
     \<lparr>requestChan = [], dispatched = d + length (r # rs), workers = [],
      socket_out = out @ zip [d..<d + length (r # rs)]
                             (map (\<lambda>r. ''Hello '' @ Data r @ ''!'') (r # rs))\<rparr>"
    unfolding z by simp
  with s1 s2 show ?case
    by (meson converse_rtranclp_into_rtranclp)
qed

lemma in_order_run:
  "\<exists>p. (pipeline_step handleRequest)\<^sup>*\<^sup>* (connection_start reqs) p \<and> drained p \<and>
       map snd (socket_out p) = map (\<lambda>r. ''Hello '' @ Data r @ ''!'') reqs"
proof -
  let ?p = "\<lparr>requestChan = [], dispatched = 0 + length reqs, workers = [],
      socket_out = [] @ zip [0..<0 + length reqs] (map (\<lambda>r. ''Hello '' @ Data r @ ''!'') reqs)\<rparr>"
  have "(pipeline_step handleRequest)\<^sup>*\<^sup>* (connection_start reqs) ?p"
    unfolding connection_start_def by (rule in_order_run_from)
  moreover have "drained ?p" by (simp add: drained_def)
  moreover have "map snd (socket_out ?p) = map (\<lambda>r. ''Hello '' @ Data r @ ''!'') reqs"
    by (simp add: map_snd_zip)
  ultimately show ?thesis by blast
qed


subsection \<open>Three schedules\<close>

text \<open>
  Two requests, the second goroutine sending first; three requests answered in the
  order \<open>C\<close>, \<open>A\<close>, \<open>B\<close>; and three requests under a handler that rejects \<open>B\<close>.
\<close>

lemma run_B_A:
  "(pipeline_step handleRequest)\<^sup>*\<^sup>*
     (connection_start [example_request ''A'', example_request ''B''])
     \<lparr>requestChan = [], dispatched = 2, workers = [],
      socket_out = [(1, ''Hello B!''), (0, ''Hello A!'')]\<rparr>"
proof -
  let ?A = "example_request ''A''" and ?B = "example_request ''B''"
  let ?p1 = "\<lparr>requestChan = [?B], dispatched = 1, workers = [(0, ?A)], socket_out = []\<rparr>"
  let ?p2 = "\<lparr>requestChan = [], dispatched = 2, workers = [(0, ?A), (1, ?B)], socket_out = []\<rparr>"
  let ?p3 = "\<lparr>requestChan = [], dispatched = 2, workers = [(0, ?A)],
              socket_out = [(1, ''Hello B!'')]\<rparr>"
  let ?p4 = "\<lparr>requestChan = [], dispatched = 2, workers = [],
              socket_out = [(1, ''Hello B!''), (0, ''Hello A!'')]\<rparr>"
  have s1: "pipeline_step handleRequest (connection_start [?A, ?B]) ?p1"
    by (rule dispatch_to [of _ ?A "[?B]"]) (simp_all add: connection_start_def)
  have s2: "pipeline_step handleRequest ?p1 ?p2"
    by (rule dispatch_to [of _ ?B "[]"]) simp_all
  have s3: "pipeline_step handleRequest ?p2 ?p3"
    by (rule respond_to [of 1 ?B _ _ "''Hello B!''"])
       (simp_all add: handleRequest_def example_request_def)
  have s4: "pipeline_step handleRequest ?p3 ?p4"
    by (rule respond_to [of 0 ?A _ _ "''Hello A!''"])
       (simp_all add: handleRequest_def example_request_def)
  show ?thesis
    using run3 [OF s1 s2 s3] s4 by (rule rtranclp.rtrancl_into_rtrancl)
qed

lemma run_C_A_B:
  "(pipeline_step handleRequest)\<^sup>*\<^sup>*
     (connection_start [example_request ''A'', example_request ''B'', example_request ''C''])
     \<lparr>requestChan = [], dispatched = 3, workers = [],
      socket_out = [(2, ''Hello C!''), (0, ''Hello A!''), (1, ''Hello B!'')]\<rparr>"
proof -
  let ?A = "example_request ''A''" and ?B = "example_request ''B''" and ?C = "example_request ''C''"
  let ?p1 = "\<lparr>requestChan = [?B, ?C], dispatched = 1, workers = [(0, ?A)], socket_out = []\<rparr>"
  let ?p2 = "\<lparr>requestChan = [?C], dispatched = 2, workers = [(0, ?A), (1, ?B)], socket_out = []\<rparr>"
  let ?p3 = "\<lparr>requestChan = [], dispatched = 3, workers = [(0, ?A), (1, ?B), (2, ?C)],
              socket_out = []\<rparr>"
  let ?p4 = "\<lparr>requestChan = [], dispatched = 3, workers = [(0, ?A), (1, ?B)],
              socket_out = [(2, ''Hello C!'')]\<rparr>"
  let ?p5 = "\<lparr>requestChan = [], dispatched = 3, workers = [(1, ?B)],
              socket_out = [(2, ''Hello C!''), (0, ''Hello A!'')]\<rparr>"
  let ?p6 = "\<lparr>requestChan = [], dispatched = 3, workers = [],
              socket_out = [(2, ''Hello C!''), (0, ''Hello A!''), (1, ''Hello B!'')]\<rparr>"
  have s1: "pipeline_step handleRequest (connection_start [?A, ?B, ?C]) ?p1"
    by (rule dispatch_to [of _ ?A "[?B, ?C]"]) (simp_all add: connection_start_def)
  have s2: "pipeline_step handleRequest ?p1 ?p2"
    by (rule dispatch_to [of _ ?B "[?C]"]) simp_all
  have s3: "pipeline_step handleRequest ?p2 ?p3"
    by (rule dispatch_to [of _ ?C "[]"]) simp_all
  have s4: "pipeline_step handleRequest ?p3 ?p4"
    by (rule respond_to [of 2 ?C _ _ "''Hello C!''"])
       (simp_all add: handleRequest_def example_request_def)
  have s5: "pipeline_step handleRequest ?p4 ?p5"
    by (rule respond_to [of 0 ?A _ _ "''Hello A!''"])
       (simp_all add: handleRequest_def example_request_def)
  have s6: "pipeline_step handleRequest ?p5 ?p6"
    by (rule respond_to [of 1 ?B _ _ "''Hello B!''"])
       (simp_all add: handleRequest_def example_request_def)
  show ?thesis
    by (rule run_append [OF run3 [OF s1 s2 s3] run3 [OF s4 s5 s6]])
qed

lemma run_C_drop_A:
  "(pipeline_step
      (\<lambda>r. if Data r = ''B'' then ([], Some (errors_New ''rejected'')) else handleRequest r))\<^sup>*\<^sup>*
     (connection_start [example_request ''A'', example_request ''B'', example_request ''C''])
     \<lparr>requestChan = [], dispatched = 3, workers = [],
      socket_out = [(2, ''Hello C!''), (0, ''Hello A!'')]\<rparr>"
proof -
  let ?h = "\<lambda>r. if Data r = ''B'' then ([], Some (errors_New ''rejected'')) else handleRequest r"
  let ?A = "example_request ''A''" and ?B = "example_request ''B''" and ?C = "example_request ''C''"
  let ?p1 = "\<lparr>requestChan = [?B, ?C], dispatched = 1, workers = [(0, ?A)], socket_out = []\<rparr>"
  let ?p2 = "\<lparr>requestChan = [?C], dispatched = 2, workers = [(0, ?A), (1, ?B)], socket_out = []\<rparr>"
  let ?p3 = "\<lparr>requestChan = [], dispatched = 3, workers = [(0, ?A), (1, ?B), (2, ?C)],
              socket_out = []\<rparr>"
  let ?p4 = "\<lparr>requestChan = [], dispatched = 3, workers = [(0, ?A), (1, ?B)],
              socket_out = [(2, ''Hello C!'')]\<rparr>"
  let ?p5 = "\<lparr>requestChan = [], dispatched = 3, workers = [(0, ?A)],
              socket_out = [(2, ''Hello C!'')]\<rparr>"
  let ?p6 = "\<lparr>requestChan = [], dispatched = 3, workers = [],
              socket_out = [(2, ''Hello C!''), (0, ''Hello A!'')]\<rparr>"
  have s1: "pipeline_step ?h (connection_start [?A, ?B, ?C]) ?p1"
    by (rule dispatch_to [of _ ?A "[?B, ?C]"]) (simp_all add: connection_start_def)
  have s2: "pipeline_step ?h ?p1 ?p2"
    by (rule dispatch_to [of _ ?B "[?C]"]) simp_all
  have s3: "pipeline_step ?h ?p2 ?p3"
    by (rule dispatch_to [of _ ?C "[]"]) simp_all
  have s4: "pipeline_step ?h ?p3 ?p4"
    by (rule respond_to [of 2 ?C _ _ "''Hello C!''"])
       (simp_all add: handleRequest_def example_request_def)
  have s5: "pipeline_step ?h ?p4 ?p5"
    by (rule drop_to [of 1 ?B _ _ "[]" "errors_New ''rejected''"])
       (simp_all add: handleRequest_def example_request_def)
  have s6: "pipeline_step ?h ?p5 ?p6"
    by (rule respond_to [of 0 ?A _ _ "''Hello A!''"])
       (simp_all add: handleRequest_def example_request_def)
  show ?thesis
    by (rule run_append [OF run3 [OF s1 s2 s3] run3 [OF s4 s5 s6]])
qed

subsection \<open>Order of the responses\<close>

text \<open>
  C1, as the code has it. On a connection whose context is not cancelled and whose
  writes succeed, handling can always be brought to its end, and when every request has
  been handled the socket holds the response of each of the N requests exactly once.
  The responses stand in the order in which the handler goroutines sent them; arrival
  order is one order that can come out.
\<close>

theorem responses_complete_any_order:
  assumes "(pipeline_step handleRequest)\<^sup>*\<^sup>* (connection_start reqs) p"
  shows "(\<exists>q. (pipeline_step handleRequest)\<^sup>*\<^sup>* p q \<and> drained q) \<and>
         (drained p \<longrightarrow>
            mset (map snd (socket_out p)) = mset (map (\<lambda>r. ''Hello '' @ Data r @ ''!'') reqs) \<and>
            mset (map fst (socket_out p)) = mset [0..<length reqs]) \<and>
         (\<exists>q. (pipeline_step handleRequest)\<^sup>*\<^sup>* (connection_start reqs) q \<and> drained q \<and>
              map snd (socket_out q) = map (\<lambda>r. ''Hello '' @ Data r @ ''!'') reqs)"
  using pipeline_drains [of handleRequest p] drained_socket_out [OF assms] in_order_run [of reqs]
  by blast

text \<open>
  Requests \<open>A\<close> and \<open>B\<close> arrive in this order; the goroutine of \<open>B\<close> sends first. The
  socket gets \<open>Hello B!\<close> before \<open>Hello A!\<close>.
\<close>

theorem responses_out_of_order:
  "(pipeline_step handleRequest)\<^sup>*\<^sup>*
     (connection_start [example_request ''A'', example_request ''B''])
     \<lparr>requestChan = [], dispatched = 2, workers = [],
      socket_out = [(1, ''Hello B!''), (0, ''Hello A!'')]\<rparr> \<and>
   drained \<lparr>requestChan = [], dispatched = 2, workers = [],
            socket_out = [(1, ''Hello B!''), (0, ''Hello A!'')]\<rparr> \<and>
   map snd (socket_out \<lparr>requestChan = [], dispatched = 2, workers = [],
                        socket_out = [(1, ''Hello B!''), (0, ''Hello A!'')]\<rparr>)
     = [''Hello B!'', ''Hello A!''] \<and>
   map (\<lambda>r. fst (handleRequest r)) [example_request ''A'', example_request ''B'']
     = [''Hello A!'', ''Hello B!'']"
  using run_B_A by (simp add: drained_def handleRequest_def example_request_def)

text \<open>The same run holds both responses, each once.\<close>

theorem responses_complete_witness:
  "(pipeline_step handleRequest)\<^sup>*\<^sup>*
     (connection_start [example_request ''A'', example_request ''B''])
     \<lparr>requestChan = [], dispatched = 2, workers = [],
      socket_out = [(1, ''Hello B!''), (0, ''Hello A!'')]\<rparr> \<and>
   drained \<lparr>requestChan = [], dispatched = 2, workers = [],
            socket_out = [(1, ''Hello B!''), (0, ''Hello A!'')]\<rparr> \<and>
   mset (map snd (socket_out \<lparr>requestChan = [], dispatched = 2, workers = [],
                              socket_out = [(1, ''Hello B!''), (0, ''Hello A!'')]\<rparr>))
     = mset (map (\<lambda>r. ''Hello '' @ Data r @ ''!'')
               [example_request ''A'', example_request ''B''])"
proof -
  let ?p = "\<lparr>requestChan = [], dispatched = 2, workers = [],
            socket_out = [(1, ''Hello B!''), (0, ''Hello A!'')]\<rparr>"
  have d: "drained ?p" by (simp add: drained_def)
  from responses_complete_any_order [OF run_B_A] d
  have "mset (map snd (socket_out ?p))
     = mset (map (\<lambda>r. ''Hello '' @ Data r @ ''!'')
               [example_request ''A'', example_request ''B''])"
    by blast
  with run_B_A d show ?thesis by blast
qed


subsection \<open>A handler that fails\<close>

text \<open>
  C6. Let the handler return an error for the request at position \<open>k\<close> of a connection.
  Then in no state the connection reaches has a response for position \<open>k\<close> been
  written. The connection does not stall: while something is left to handle a step is
  possible, and handling can always be brought to its end. At the end the response of
  every later request whose own handler succeeds is on the socket.
\<close>

theorem handler_error_drops_one_response:
  assumes "(pipeline_step h)\<^sup>*\<^sup>* (connection_start reqs) p"
    and "k < length reqs" and "snd (h (reqs ! k)) = Some e"
  shows "k \<notin> fst ` set (socket_out p) \<and>
         (\<not> drained p \<longrightarrow> (\<exists>q. pipeline_step h p q)) \<and>
         (\<exists>q. (pipeline_step h)\<^sup>*\<^sup>* p q \<and> drained q) \<and>
         (drained p \<longrightarrow>
            (\<forall>j. k < j \<and> j < length reqs \<and> snd (h (reqs ! j)) = None \<longrightarrow>
                 (j, fst (h (reqs ! j))) \<in> set (socket_out p)))"
proof -
  have inv: "pipeline_inv h reqs p" using assms(1) by (rule pipeline_inv_run)
  have "k \<notin> fst ` set (socket_out p)"
  proof
    assume "k \<in> fst ` set (socket_out p)"
    then obtain b where "(k, b) \<in> set (socket_out p)" by auto
    from pipeline_inv_written [OF inv this] assms(3) show False by simp
  qed
  moreover have "drained p \<longrightarrow>
            (\<forall>j. k < j \<and> j < length reqs \<and> snd (h (reqs ! j)) = None \<longrightarrow>
                 (j, fst (h (reqs ! j))) \<in> set (socket_out p))"
  proof (intro impI allI)
    fix j assume dr: "drained p"
      and j: "k < j \<and> j < length reqs \<and> snd (h (reqs ! j)) = None"
    then have "j \<in># filter_mset (handled_ok h reqs) (mset [0..<length reqs])"
      by (simp add: handled_ok_def)
    then have "j \<in># image_mset fst (mset (socket_out p))"
      using pipeline_inv_drained(2) [OF inv dr] by simp
    then obtain b where b: "(j, b) \<in> set (socket_out p)" by auto
    from pipeline_inv_written [OF inv b] have "b = fst (h (reqs ! j))" by simp
    with b show "(j, fst (h (reqs ! j))) \<in> set (socket_out p)" by simp
  qed
  ultimately show ?thesis using pipeline_progress pipeline_drains by blast
qed

text \<open>
  Requests \<open>A\<close>, \<open>B\<close>, \<open>C\<close> under a handler that rejects \<open>B\<close>: nothing is written
  for position 1, and the response of \<open>C\<close> (position 2) is on the socket.
\<close>

theorem handler_error_witness:
  "(pipeline_step
      (\<lambda>r. if Data r = ''B'' then ([], Some (errors_New ''rejected'')) else handleRequest r))\<^sup>*\<^sup>*
     (connection_start [example_request ''A'', example_request ''B'', example_request ''C''])
     \<lparr>requestChan = [], dispatched = 3, workers = [],
      socket_out = [(2, ''Hello C!''), (0, ''Hello A!'')]\<rparr> \<and>
   1 < length [example_request ''A'', example_request ''B'', example_request ''C''] \<and>
   snd ((\<lambda>r. if Data r = ''B'' then ([], Some (errors_New ''rejected'')) else handleRequest r)
          ([example_request ''A'', example_request ''B'', example_request ''C''] ! 1))
     = Some (errors_New ''rejected'') \<and>
   1 \<notin> fst ` set (socket_out \<lparr>requestChan = [], dispatched = 3, workers = [],
                               socket_out = [(2, ''Hello C!''), (0, ''Hello A!'')]\<rparr>) \<and>
   drained \<lparr>requestChan = [], dispatched = 3, workers = [],
            socket_out = [(2, ''Hello C!''), (0, ''Hello A!'')]\<rparr> \<and>
   (2, ''Hello C!'') \<in> set (socket_out \<lparr>requestChan = [], dispatched = 3, workers = [],
                               socket_out = [(2, ''Hello C!''), (0, ''Hello A!'')]\<rparr>)"
proof -
  let ?h = "\<lambda>r. if Data r = ''B'' then ([], Some (errors_New ''rejected'')) else handleRequest r"
  let ?reqs = "[example_request ''A'', example_request ''B'', example_request ''C'']"
  let ?p = "\<lparr>requestChan = [], dispatched = 3, workers = [],
            socket_out = [(2, ''Hello C!''), (0, ''Hello A!'')]\<rparr>"
  have k: "1 < length ?reqs" by simp
  have f: "snd (?h (?reqs ! 1)) = Some (errors_New ''rejected'')"
    by (simp add: example_request_def)
  have d: "drained ?p" by (simp add: drained_def)
  note T = handler_error_drops_one_response [OF run_C_drop_A k f]
  from T have a: "1 \<notin> fst ` set (socket_out ?p)" by blast
  from T d have "\<forall>j. 1 < j \<and> j < length ?reqs \<and> snd (?h (?reqs ! j)) = None \<longrightarrow>
                 (j, fst (?h (?reqs ! j))) \<in> set (socket_out ?p)" by blast
  then have "1 < (2::nat) \<and> 2 < length ?reqs \<and> snd (?h (?reqs ! 2)) = None \<longrightarrow>
                 (2, fst (?h (?reqs ! 2))) \<in> set (socket_out ?p)" by blast
  then have b: "(2, ''Hello C!'') \<in> set (socket_out ?p)"
    by (simp add: example_request_def handleRequest_def)
  from run_C_drop_A k f a d b show ?thesis by blast
qed

subsection \<open>The handler and the scenario of three requests\<close>

text \<open>
  C9, as the code has it. For every request the handler returns \<open>Hello \<close>, the payload
  and \<open>!\<close>, and no error. On a connection carrying the payloads \<open>A\<close>, \<open>B\<close>, \<open>C\<close> in
  this order, once all three are handled the socket holds \<open>Hello A!\<close>, \<open>Hello B!\<close>
  and \<open>Hello C!\<close>, each once, in the order in which the goroutines sent them; the
  order \<open>Hello A!\<close>, \<open>Hello B!\<close>, \<open>Hello C!\<close> is one that can come out.
\<close>

theorem hello_responses:
  "handleRequest request = (''Hello '' @ Data request @ ''!'', None) \<and>
   ((pipeline_step handleRequest)\<^sup>*\<^sup>*
       (connection_start [\<lparr>RemoteAddr = a, Data = ''A''\<rparr>, \<lparr>RemoteAddr = b, Data = ''B''\<rparr>,
                          \<lparr>RemoteAddr = c, Data = ''C''\<rparr>]) p \<and> drained p \<longrightarrow>
      mset (map snd (socket_out p)) = {#''Hello A!'', ''Hello B!'', ''Hello C!''#}) \<and>
   (\<exists>q. (pipeline_step handleRequest)\<^sup>*\<^sup>*
          (connection_start [\<lparr>RemoteAddr = a, Data = ''A''\<rparr>, \<lparr>RemoteAddr = b, Data = ''B''\<rparr>,
                             \<lparr>RemoteAddr = c, Data = ''C''\<rparr>]) q \<and> drained q \<and>
        map snd (socket_out q) = [''Hello A!'', ''Hello B!'', ''Hello C!''])"
proof -
  let ?reqs = "[\<lparr>RemoteAddr = a, Data = ''A''\<rparr>, \<lparr>RemoteAddr = b, Data = ''B''\<rparr>,
                \<lparr>RemoteAddr = c, Data = ''C''\<rparr>]"
  have "handleRequest request = (''Hello '' @ Data request @ ''!'', None)"
    by (simp add: handleRequest_def)
  moreover have "(pipeline_step handleRequest)\<^sup>*\<^sup>* (connection_start ?reqs) p \<and> drained p \<longrightarrow>
      mset (map snd (socket_out p)) = {#''Hello A!'', ''Hello B!'', ''Hello C!''#}"
    using drained_socket_out(1) [of ?reqs p] by auto
  moreover have "\<exists>q. (pipeline_step handleRequest)\<^sup>*\<^sup>* (connection_start ?reqs) q \<and>
        drained q \<and> map snd (socket_out q) = [''Hello A!'', ''Hello B!'', ''Hello C!'']"
    using in_order_run [of ?reqs] by simp
  ultimately show ?thesis by blast
qed

text \<open>
  The goroutine of \<open>C\<close> sends first, then those of \<open>A\<close> and \<open>B\<close>: the responses
  leave in the order \<open>Hello C!\<close>, \<open>Hello A!\<close>, \<open>Hello B!\<close>.
\<close>

theorem hello_responses_out_of_order:
  "(pipeline_step handleRequest)\<^sup>*\<^sup>*
     (connection_start [example_request ''A'', example_request ''B'', example_request ''C''])
     \<lparr>requestChan = [], dispatched = 3, workers = [],
      socket_out = [(2, ''Hello C!''), (0, ''Hello A!''), (1, ''Hello B!'')]\<rparr> \<and>
   drained \<lparr>requestChan = [], dispatched = 3, workers = [],
      socket_out = [(2, ''Hello C!''), (0, ''Hello A!''), (1, ''Hello B!'')]\<rparr> \<and>
   map snd (socket_out \<lparr>requestChan = [], dispatched = 3, workers = [],
      socket_out = [(2, ''Hello C!''), (0, ''Hello A!''), (1, ''Hello B!'')]\<rparr>)
     = [''Hello C!'', ''Hello A!'', ''Hello B!'']"
  using run_C_A_B by (simp add: drained_def)

text \<open>The same run holds the three responses, each once.\<close>

theorem hello_responses_witness:
  "handleRequest (example_request ''A'') = (''Hello A!'', None) \<and>
   (pipeline_step handleRequest)\<^sup>*\<^sup>*
     (connection_start [example_request ''A'', example_request ''B'', example_request ''C''])
     \<lparr>requestChan = [], dispatched = 3, workers = [],
      socket_out = [(2, ''Hello C!''), (0, ''Hello A!''), (1, ''Hello B!'')]\<rparr> \<and>
   drained \<lparr>requestChan = [], dispatched = 3, workers = [],
      socket_out = [(2, ''Hello C!''), (0, ''Hello A!''), (1, ''Hello B!'')]\<rparr> \<and>
   mset (map snd (socket_out \<lparr>requestChan = [], dispatched = 3, workers = [],
      socket_out = [(2, ''Hello C!''), (0, ''Hello A!''), (1, ''Hello B!'')]\<rparr>))
     = {#''Hello A!'', ''Hello B!'', ''Hello C!''#}"
proof -
  let ?p = "\<lparr>requestChan = [], dispatched = 3, workers = [],
      socket_out = [(2, ''Hello C!''), (0, ''Hello A!''), (1, ''Hello B!'')]\<rparr>"
  have d: "drained ?p" by (simp add: drained_def)
  have r: "(pipeline_step handleRequest)\<^sup>*\<^sup>*
     (connection_start [\<lparr>RemoteAddr = ''10.0.0.1:5001'', Data = ''A''\<rparr>,
                        \<lparr>RemoteAddr = ''10.0.0.1:5001'', Data = ''B''\<rparr>,
                        \<lparr>RemoteAddr = ''10.0.0.1:5001'', Data = ''C''\<rparr>]) ?p"
    using run_C_A_B by (simp add: example_request_def)
  note T = hello_responses [of "example_request ''A''" "''10.0.0.1:5001''" "''10.0.0.1:5001''"
      "''10.0.0.1:5001''" ?p]
  from T have h: "handleRequest (example_request ''A'') = (''Hello A!'', None)"
    by (simp add: example_request_def)
  from T r d
  have m: "mset (map snd (socket_out ?p)) = {#''Hello A!'', ''Hello B!'', ''Hello C!''#}"
    by blast
  from h run_C_A_B d m show ?thesis by blast
qed


end
